theory Spec2Isabelle
  imports
    Main
    "HOL-Library.Char_ord"
    "HOL-Library.List_Lexorder"
    "HOL-Library.Sublist"
    "HOL-Library.AList"
    "HOL-Library.Multiset"
begin

section \<open>Entities (aiomigrate/entities.py)\<close>

text \<open>
  A Python \<open>str\<close> is modelled as \<^typ>\<open>string\<close>: a list of characters, each character a
  code point below 256. Strings are compared as Python compares them, lexicographically by
  code point, a proper prefix sorting first (\<open>HOL-Library.List_Lexorder\<close> over
  \<open>HOL-Library.Char_ord\<close>).

  \<open>apply_time\<close> is an aware \<open>datetime\<close>; it is modelled by the instant it denotes
  (an integer), which is what equality of aware datetimes compares.
\<close>

datatype MigrationStatus = UNAPPLIED | APPLIED

datatype Direction = UP | DOWN

record Migration =
  name :: string
  status :: MigrationStatus
  apply_time :: "int option"
  up_statements :: "string list"
  down_statements :: "string list"
  disable_transactions_up :: bool
  disable_transactions_down :: bool

text \<open>
  The constructor call \<open>Migration(name=..., status=...)\<close> with the dataclass defaults
  for the remaining fields.
\<close>

definition new_Migration :: "string \<Rightarrow> MigrationStatus \<Rightarrow> Migration" where
  "new_Migration n s =
     \<lparr>name = n, status = s, apply_time = None, up_statements = [], down_statements = [],
      disable_transactions_up = False, disable_transactions_down = False\<rparr>"


section \<open>Planning (aiomigrate/plan.py)\<close>

text \<open>
  The exceptions \<open>plan_migrations\<close> can raise. \<open>KeyError\<close> is what the subscript
  \<open>known_mapping[name]\<close> raises on a missing key; the two others are the subclasses of
  \<open>MigrationPlanError\<close>, with the attributes their constructors store.
\<close>

datatype plan_exception =
    UnknownAppliedMigration "string set"
  | InvalidMigrationApplyOrder string string
  | KeyError string

text \<open>
  The slice \<open>xs[:limit]\<close>: \<open>None\<close> keeps the whole list, a non-negative bound keeps that
  many leading elements, a negative bound counts from the end.
\<close>

definition slice_to :: "'a list \<Rightarrow> int option \<Rightarrow> 'a list" where
  "slice_to xs lim =
     (case lim of
        None \<Rightarrow> xs
      | Some l \<Rightarrow> if 0 \<le> l then take (nat l) xs else take (length xs - nat (- l)) xs)"

text \<open>
  The dict comprehension \<open>{m.name: m for m in known_migrations}\<close>: a dict is an
  association list in insertion order; storing under a key that is present replaces the
  value in place, as \<^const>\<open>AList.update\<close> does.
\<close>

definition known_mapping_of :: "Migration list \<Rightarrow> (string \<times> Migration) list" where
  "known_mapping_of known_migrations =
     fold (\<lambda>m d. AList.update (name m) m d) known_migrations []"

text \<open>
  The generator \<open>(known_mapping[name] for name in names)\<close>, consumed by \<open>sorted\<close>:
  the first missing key raises.
\<close>

fun lookup_each :: "(string \<times> Migration) list \<Rightarrow> string list \<Rightarrow> plan_exception + Migration list" where
  "lookup_each d [] = Inr []"
| "lookup_each d (n # ns) =
     (case map_of d n of
        None \<Rightarrow> Inl (KeyError n)
      | Some m \<Rightarrow> (case lookup_each d ns of Inl e \<Rightarrow> Inl e | Inr ms \<Rightarrow> Inr (m # ms)))"

text \<open>
  \<open>sorted(xs, key=..., reverse=True)\<close> is a stable descending sort: elements with equal
  keys keep their original order.
\<close>

definition sorted_reverse :: "('a \<Rightarrow> 'k::linorder) \<Rightarrow> 'a list \<Rightarrow> 'a list" where
  "sorted_reverse key xs = rev (sort_key key (rev xs))"

text \<open>
  \<open>plan_migrations\<close>. A \<open>frozenset\<close> is a \<^typ>\<open>string set\<close>. Python iterates a frozenset
  in an unspecified order; the model iterates it in ascending order
  (\<^const>\<open>sorted_list_of_set\<close>). Both iterations feed \<open>sorted\<close> with records of pairwise
  distinct names, so the order of iteration does not show in the result.
\<close>

definition plan_migrations ::
  "Migration list \<Rightarrow> Migration list \<Rightarrow> Direction \<Rightarrow> int option \<Rightarrow> plan_exception + Migration list" where
  "plan_migrations known_migrations applied_migrations dir lim =
     (if applied_migrations = [] then
        (if dir = UP then Inr (slice_to (sort_key name known_migrations) lim)
         else Inr [])
      else
        let known_mapping = known_mapping_of known_migrations;
            known_set = set (map fst known_mapping);
            applied_set = set (map name applied_migrations);
            unknown_applied_migrations = applied_set - known_set
        in
        if unknown_applied_migrations \<noteq> {} then
          Inl (UnknownAppliedMigration unknown_applied_migrations)
        else
          let unapplied_migrations = known_set - applied_set;
              last_applied = Max applied_set
          in
          if unapplied_migrations \<noteq> {} \<and> last_applied > Min unapplied_migrations then
            Inl (InvalidMigrationApplyOrder last_applied (Min unapplied_migrations))
          else
            (case
               (if dir = UP then
                  map_sum id (sort_key name)
                    (lookup_each known_mapping (sorted_list_of_set unapplied_migrations))
                else
                  map_sum id (sorted_reverse name)
                    (lookup_each known_mapping (sorted_list_of_set applied_set)))
             of
               Inl e \<Rightarrow> Inl e
             | Inr ret \<Rightarrow> Inr (case lim of None \<Rightarrow> ret | Some l \<Rightarrow> slice_to ret (Some l))))"

text \<open>
  \<open>list_migrations\<close>: the applied records in name order, then the unlimited Up plan.
\<close>

definition list_migrations ::
  "Migration list \<Rightarrow> Migration list \<Rightarrow> plan_exception + Migration list" where
  "list_migrations known_migrations applied_migrations =
     (case plan_migrations known_migrations applied_migrations UP None of
        Inl e \<Rightarrow> Inl e
      | Inr unapplied_sorted \<Rightarrow> Inr (sort_key name applied_migrations @ unapplied_sorted))"

section \<open>Parsing migration files (aiomigrate/parser.py)\<close>

definition SQL_CMD_PREFIX :: string where
  "SQL_CMD_PREFIX = ''-- +migrate ''"

definition OPTION_NO_TRANSACTION :: string where
  "OPTION_NO_TRANSACTION = ''notransaction''"

text \<open>
  \<open>MigrationParseError\<close>, one constructor for each place that raises it:
  \<open>incomplete migration command\<close>, the missing terminator of
  \<open>_raise_err_no_terminator\<close>, \<open>Invalid command: ...\<close> with the command,
  the unmatched \<open>StatementBegin\<close>, and the missing Up/Down annotations.
\<close>

datatype MigrationParseError =
    IncompleteCommand
  | NoTerminator
  | InvalidCommand string
  | UnmatchedStatementBegin
  | NoAnnotations

record MigrateCommand =
  command :: string
  options :: "string list"

subsection \<open>The string methods the parser calls\<close>

text \<open>
  \<open>str.isspace\<close> on the code points below 256: the whitespace that \<open>split()\<close>,
  \<open>strip()\<close> and \<open>rstrip()\<close> without an argument remove.
\<close>

definition isspace :: "char \<Rightarrow> bool" where
  "isspace c = (of_char c \<in> {9, 10, 11, 12, 13, 28, 29, 30, 31, 32, 133, 160 :: nat})"

text \<open>\<open>s.rstrip(chars)\<close> and \<open>s.rstrip()\<close>, \<open>s.strip()\<close>.\<close>

definition rstrip_chars :: "string \<Rightarrow> string \<Rightarrow> string" where
  "rstrip_chars chars s = rev (dropWhile (\<lambda>c. c \<in> set chars) (rev s))"

definition rstrip :: "string \<Rightarrow> string" where
  "rstrip s = rev (dropWhile isspace (rev s))"

definition strip :: "string \<Rightarrow> string" where
  "strip s = rstrip (dropWhile isspace s)"

text \<open>\<open>s.split()\<close>: the maximal runs of non-whitespace characters, in order.\<close>

fun split_acc :: "string \<Rightarrow> string \<Rightarrow> string list" where
  "split_acc w [] = (if w = [] then [] else [w])"
| "split_acc w (c # cs) =
     (if isspace c then (if w = [] then split_acc [] cs else w # split_acc [] cs)
      else split_acc (w @ [c]) cs)"

definition split_whitespace :: "string \<Rightarrow> string list" where
  "split_whitespace s = split_acc [] s"

text \<open>\<open>s.replace(old, new, 1)\<close>: the leftmost occurrence of \<open>old\<close> is replaced.\<close>

fun replace_once :: "string \<Rightarrow> string \<Rightarrow> string \<Rightarrow> string" where
  "replace_once old new [] = (if old = [] then new else [])"
| "replace_once old new (c # cs) =
     (if prefix old (c # cs) then new @ drop (length old) (c # cs)
      else c # replace_once old new cs)"

text \<open>
  \<open>s.split(sep, maxsplit=1)[0]\<close> for a non-empty \<open>sep\<close>: the text before the leftmost
  occurrence of \<open>sep\<close>, the whole of \<open>s\<close> when there is none.
\<close>

fun split_first :: "string \<Rightarrow> string \<Rightarrow> string" where
  "split_first sep [] = []"
| "split_first sep (c # cs) =
     (if prefix sep (c # cs) then [] else c # split_first sep cs)"

text \<open>
  Iterating a text stream yields its lines, each with its terminating newline; a last line
  without one is yielded as it is.
\<close>

fun readlines_acc :: "string \<Rightarrow> string \<Rightarrow> string list" where
  "readlines_acc cur [] = (if cur = [] then [] else [cur])"
| "readlines_acc cur (c # cs) =
     (if c = CHR 0x0A then (cur @ [c]) # readlines_acc [] cs
      else readlines_acc (cur @ [c]) cs)"

definition readlines :: "string \<Rightarrow> string list" where
  "readlines text = readlines_acc [] text"

subsection \<open>Commands\<close>

definition parse_command :: "string \<Rightarrow> MigrationParseError + MigrateCommand" where
  "parse_command line =
     (case split_whitespace (replace_once SQL_CMD_PREFIX [] line) of
        [] \<Rightarrow> Inl IncompleteCommand
      | c # opts \<Rightarrow> Inr \<lparr>command = c, options = opts\<rparr>)"

definition ends_with_semicolon :: "string \<Rightarrow> bool" where
  "ends_with_semicolon line =
     (let before_comment = split_first ''--'' line
      in suffix '';'' (rstrip before_comment))"

record ParseState =
  buf :: string
  statement_ended :: bool
  ignore_semicolons :: bool
  current_direction :: "Direction option"
  parsed_migration :: Migration

text \<open>
  \<open>_interpret_command\<close> mutates the parse state and returns nothing; the model returns
  the new state, or the error raised.
\<close>

definition interpret_command :: "ParseState \<Rightarrow> MigrateCommand \<Rightarrow> MigrationParseError + ParseState" where
  "interpret_command parse_state cmd =
     (if command cmd = ''Up'' then
        (if strip (buf parse_state) \<noteq> [] then Inl NoTerminator
         else
           let ps = parse_state\<lparr>buf := [], current_direction := Some UP\<rparr>
           in Inr (if OPTION_NO_TRANSACTION \<in> set (options cmd)
                   then ps\<lparr>parsed_migration :=
                          (parsed_migration ps)\<lparr>disable_transactions_up := True\<rparr>\<rparr>
                   else ps))
      else if command cmd = ''Down'' then
        (if strip (buf parse_state) \<noteq> [] then Inl NoTerminator
         else
           let ps = parse_state\<lparr>buf := [], current_direction := Some DOWN\<rparr>
           in Inr (if OPTION_NO_TRANSACTION \<in> set (options cmd)
                   then ps\<lparr>parsed_migration :=
                          (parsed_migration ps)\<lparr>disable_transactions_down := True\<rparr>\<rparr>
                   else ps))
      else if command cmd = ''StatementBegin'' then
        Inr (if current_direction parse_state \<noteq> None
             then parse_state\<lparr>ignore_semicolons := True\<rparr>
             else parse_state)
      else if command cmd = ''StatementEnd'' then
        Inr (if current_direction parse_state \<noteq> None
             then parse_state\<lparr>statement_ended := ignore_semicolons parse_state,
                                ignore_semicolons := False\<rparr>
             else parse_state)
      else Inl (InvalidCommand (command cmd)))"

subsection \<open>The line loop\<close>

text \<open>
  The statement in the buffer is complete: it is appended to the statements of the current
  direction and the buffer is emptied.
\<close>

definition wrap_up :: "ParseState \<Rightarrow> ParseState" where
  "wrap_up parse_state =
     parse_state\<lparr>
       statement_ended := False,
       parsed_migration :=
         (if current_direction parse_state = Some UP
          then (parsed_migration parse_state)\<lparr>up_statements :=
                 up_statements (parsed_migration parse_state) @ [buf parse_state]\<rparr>
          else (parsed_migration parse_state)\<lparr>down_statements :=
                 down_statements (parsed_migration parse_state) @ [buf parse_state]\<rparr>),
       buf := []\<rparr>"

text \<open>One iteration of \<open>for line in content\<close>; \<open>continue\<close> returns the state.\<close>

definition parse_line :: "ParseState \<Rightarrow> string \<Rightarrow> MigrationParseError + ParseState" where
  "parse_line parse_state raw =
     (let line = rstrip_chars [CHR 0x0D, CHR 0x0A] raw in
      if prefix ''-- '' line \<and> \<not> prefix ''-- +'' line then Inr parse_state
      else
        case
          (if prefix SQL_CMD_PREFIX line then
             (case parse_command line of
                Inl e \<Rightarrow> Inl e
              | Inr cmd \<Rightarrow> interpret_command parse_state cmd)
           else Inr parse_state)
        of
          Inl e \<Rightarrow> Inl e
        | Inr ps1 \<Rightarrow>
            if current_direction ps1 = None then Inr ps1
            else
              let ps2 = (if \<not> prefix ''-- +'' line
                         then ps1\<lparr>buf := buf ps1 @ line @ [CHR 0x0A]\<rparr>
                         else ps1)
              in
              if (\<not> ignore_semicolons ps2 \<and> ends_with_semicolon line) \<or> statement_ended ps2
              then Inr (wrap_up ps2)
              else Inr ps2)"

fun parse_lines :: "ParseState \<Rightarrow> string list \<Rightarrow> MigrationParseError + ParseState" where
  "parse_lines parse_state [] = Inr parse_state"
| "parse_lines parse_state (l # ls) =
     (case parse_line parse_state l of
        Inl e \<Rightarrow> Inl e
      | Inr ps \<Rightarrow> parse_lines ps ls)"

definition initial_parse_state :: "string \<Rightarrow> ParseState" where
  "initial_parse_state n =
     \<lparr>buf = [], statement_ended = False, ignore_semicolons = False,
      current_direction = None, parsed_migration = new_Migration n UNAPPLIED\<rparr>"

text \<open>The checks after the loop.\<close>

definition diagnose :: "ParseState \<Rightarrow> MigrationParseError + Migration" where
  "diagnose parse_state =
     (if ignore_semicolons parse_state then Inl UnmatchedStatementBegin
      else if current_direction parse_state = None then Inl NoAnnotations
      else if strip (buf parse_state) \<noteq> [] \<and> \<not> prefix ''-- +'' (buf parse_state)
        then Inl NoTerminator
      else Inr (parsed_migration parse_state))"

text \<open>\<open>parse_migration\<close>; \<open>content\<close> is the list of lines the text stream yields.\<close>

definition parse_migration :: "string \<Rightarrow> string list \<Rightarrow> MigrationParseError + Migration" where
  "parse_migration n content =
     (case parse_lines (initial_parse_state n) content of
        Inl e \<Rightarrow> Inl e
      | Inr parse_state \<Rightarrow> diagnose parse_state)"

subsection \<open>Vocabulary of the parser's properties\<close>

text \<open>
  A line is the directive \<open>c\<close> when it carries the directive prefix and its command token
  (what \<open>_parse_command\<close> reads from the line without its line terminator) is \<open>c\<close>.
\<close>

definition directive :: "string \<Rightarrow> string \<Rightarrow> bool" where
  "directive c l \<longleftrightarrow>
     prefix SQL_CMD_PREFIX l \<and>
     (case parse_command (rstrip_chars [CHR 0x0D, CHR 0x0A] l) of
        Inl e \<Rightarrow> False
      | Inr cmd \<Rightarrow> command cmd = c)"

text \<open>The record with one more statement in the sequence of the given direction.\<close>

definition add_statement :: "Direction \<Rightarrow> string \<Rightarrow> Migration \<Rightarrow> Migration" where
  "add_statement d stmt m =
     (case d of
        UP \<Rightarrow> m\<lparr>up_statements := up_statements m @ [stmt]\<rparr>
      | DOWN \<Rightarrow> m\<lparr>down_statements := down_statements m @ [stmt]\<rparr>)"

text \<open>
  The invariant of the statement buffer: it is empty, or it holds complete lines (so a
  newline) and does not begin with \<open>-- +\<close>.
\<close>

definition buf_ok :: "string \<Rightarrow> bool" where
  "buf_ok b \<longleftrightarrow> b = [] \<or> (CHR 0x0A \<in> set b \<and> \<not> prefix ''-- +'' b)"

section \<open>Running migrations (aiomigrate/db.py, aiomigrate/driver.py)\<close>


text \<open>
  What \<open>do_migrate\<close> can raise: an exception of the planner, or an exception raised by
  a method of the connection (identified by a message).
\<close>

datatype migrate_exception =
    PlanException plan_exception
  | DriverException string

text \<open>
  The connection is the abstract class \<open>driver.Connection\<close>; what its methods do to the
  database is a parameter. A coroutine is a function from the state of the database to the
  value returned or the exception raised, and the state it leaves; the state left when an
  exception is raised is kept, since statements run before the failing one have been
  executed. \<open>await\<close> followed by the rest of the body is \<open>bind_io\<close>.
\<close>

type_synonym ('a, 'db) aio = "'db \<Rightarrow> (migrate_exception + 'a) \<times> 'db"



definition bind_io :: "('a, 'db) aio \<Rightarrow> ('a \<Rightarrow> ('b, 'db) aio) \<Rightarrow> ('b, 'db) aio" where
  "bind_io m f db =
     (case m db of
        (Inl e, db') \<Rightarrow> (Inl e, db')
      | (Inr x, db') \<Rightarrow> f x db')"

text \<open>
  A row of the bookkeeping table as \<open>fetch\<close> returns it: the fields \<open>name\<close> and
  \<open>apply_time\<close> (the instant, which \<open>astimezone(utc)\<close> keeps).
\<close>

record MigrationRow =
  row_name :: string
  row_apply_time :: int

text \<open>
  The methods of \<open>driver.Connection\<close>. The second argument of \<open>execute\<close> is the
  optional tuple of query arguments, here at most one name.
\<close>

record 'db Connection =
  fetch :: "string \<Rightarrow> (MigrationRow list, 'db) aio"
  execute :: "string \<Rightarrow> string option \<Rightarrow> (unit, 'db) aio"
  sql_create_migration_table :: "string \<Rightarrow> (string, 'db) aio"
  sql_list_migrations :: "string \<Rightarrow> (string, 'db) aio"
  sql_apply_migration :: "string \<Rightarrow> (string, 'db) aio"
  sql_rollback_migration :: "string \<Rightarrow> (string, 'db) aio"

text \<open>
  Modelled from the spec: \<open>conn.transaction()\<close> is abstract in \<open>driver.Connection\<close> and
  delegated to the database library by the PostgreSQL driver. The Backend Contract says:
  scoped transactional execution; on exit, commits if the work completed without failure,
  otherwise rolls back and propagates the failure. Committing keeps the state the work
  left; rolling back restores the state at the start of the transaction.
\<close>

definition transaction :: "'db Connection \<Rightarrow> ('a, 'db) aio \<Rightarrow> ('a, 'db) aio" where
  "transaction conn work db =
     (case work db of
        (Inl e, db') \<Rightarrow> (Inl e, db)
      | (Inr x, db') \<Rightarrow> (Inr x, db'))"











section \<open>Facts about the planner\<close>

lemma keys_known_mapping_of_aux:
  "fst ` set (fold (\<lambda>m d. AList.update (name m) m d) ms d0) = fst ` set d0 \<union> name ` set ms"
  by (induction ms arbitrary: d0) (auto simp: dom_update)

lemma keys_known_mapping_of:
  "fst ` set (known_mapping_of known) = name ` set known"
  by (simp add: known_mapping_of_def keys_known_mapping_of_aux)

lemma set_update_subset: "set (AList.update k v al) \<subseteq> insert (k, v) (set al)"
  by (induction al) auto

lemma entries_known_mapping_of_aux:
  assumes "\<forall>(k, m) \<in> set d0. k = name m"
  shows "\<forall>(k, m) \<in> set (fold (\<lambda>m d. AList.update (name m) m d) ms d0). k = name m"
  using assms
proof (induction ms arbitrary: d0)
  case Nil
  then show ?case by simp
next
  case (Cons a ms)
  have "\<forall>(k, m) \<in> set (AList.update (name a) a d0). k = name m"
    using Cons.prems set_update_subset[of "name a" a d0] by auto
  from Cons.IH[OF this] show ?case by simp
qed

lemma entries_known_mapping_of:
  "map_of (known_mapping_of known) k = Some m \<Longrightarrow> name m = k"
  using entries_known_mapping_of_aux[of "[]" known] map_of_SomeD[of "known_mapping_of known" k m]
  by (auto simp: known_mapping_of_def)

lemma lookup_each_known:
  assumes "set ns \<subseteq> fst ` set d"
  shows "lookup_each d ns = Inr (map (the \<circ> map_of d) ns)"
  using assms
proof (induction ns)
  case Nil
  then show ?case by simp
next
  case (Cons n ns)
  then have "n \<in> fst ` set d" by simp
  then obtain m where "map_of d n = Some m"
    by (metis domD dom_map_of_conv_image_fst)
  with Cons show ?case by simp
qed

lemma names_lookup_known:
  assumes "set ns \<subseteq> name ` set known"
  shows "map name (map (the \<circ> map_of (known_mapping_of known)) ns) = ns"
proof -
  have "name (the (map_of (known_mapping_of known) n)) = n" if "n \<in> set ns" for n
  proof -
    from that assms have "n \<in> fst ` set (known_mapping_of known)"
      by (auto simp: keys_known_mapping_of)
    then obtain m where "map_of (known_mapping_of known) n = Some m"
      by (metis domD dom_map_of_conv_image_fst)
    then show ?thesis using entries_known_mapping_of by simp
  qed
  then show ?thesis by (simp add: map_idI)
qed

lemma set_sorted_reverse: "set (sorted_reverse f xs) = set xs"
  by (simp add: sorted_reverse_def)

lemma length_sorted_reverse: "length (sorted_reverse f xs) = length xs"
  by (simp add: sorted_reverse_def)

subsection \<open>Errors of the planner\<close>

text \<open>
  C1. When the applied list is not empty, every applied name is known, some known name is
  not applied, and the greatest applied name sorts strictly after the least unapplied name,
  \<open>plan_migrations\<close> raises \<open>InvalidMigrationApplyOrder\<close> with that greatest applied name as
  \<open>last_applied\<close> and that least unapplied name as \<open>first_unapplied\<close>, whatever the
  direction and the limit: no plan is returned.
\<close>

theorem plan_migrations_apply_order:
  assumes "applied \<noteq> []"
    and "name ` set applied \<subseteq> name ` set known"
    and "name ` set known - name ` set applied \<noteq> {}"
    and "Max (name ` set applied) > Min (name ` set known - name ` set applied)"
  shows "plan_migrations known applied dir lim =
           Inl (InvalidMigrationApplyOrder
                  (Max (name ` set applied))
                  (Min (name ` set known - name ` set applied)))"
  using assms by (simp add: plan_migrations_def Let_def keys_known_mapping_of)

theorem plan_migrations_apply_order_witness:
  "plan_migrations
     [new_Migration ''0001'' UNAPPLIED, new_Migration ''0002'' UNAPPLIED]
     [new_Migration ''0002'' APPLIED] UP None =
   Inl (InvalidMigrationApplyOrder ''0002'' ''0001'')"
proof -
  have unapplied: "{''0001'', ''0002''} - {''0002''} = {''0001'' :: string}"
    by auto
  show ?thesis
    using plan_migrations_apply_order
      [of "[new_Migration ''0002'' APPLIED]"
          "[new_Migration ''0001'' UNAPPLIED, new_Migration ''0002'' UNAPPLIED]" UP None]
    by (simp add: new_Migration_def unapplied)
qed

text \<open>
  C2. When the applied list is not empty and some applied name is not a known name,
  \<open>plan_migrations\<close> raises \<open>UnknownAppliedMigration\<close> carrying exactly the set of
  applied names that are not known, whatever the direction and the limit.
\<close>

theorem plan_migrations_unknown_applied:
  assumes "applied \<noteq> []"
    and "name ` set applied - name ` set known \<noteq> {}"
  shows "plan_migrations known applied dir lim =
           Inl (UnknownAppliedMigration (name ` set applied - name ` set known))"
  using assms by (simp add: plan_migrations_def Let_def keys_known_mapping_of)

theorem plan_migrations_unknown_applied_witness:
  "plan_migrations
     [new_Migration ''0001'' UNAPPLIED]
     [new_Migration ''0001'' APPLIED, new_Migration ''0002'' APPLIED] DOWN (Some 3) =
   Inl (UnknownAppliedMigration {''0002''})"
  using plan_migrations_unknown_applied
    [of "[new_Migration ''0001'' APPLIED, new_Migration ''0002'' APPLIED]"
        "[new_Migration ''0001'' UNAPPLIED]" DOWN "Some 3"]
  by (simp add: new_Migration_def)

subsection \<open>Plans\<close>

text \<open>
  C4. When the applied list is empty, \<open>plan_migrations\<close> raises nothing, for every known
  list, direction and limit. For Up without a limit it returns the known records sorted
  ascending by name (a stable sort: the same records, names ascending); with a limit
  \<open>l \<ge> 0\<close> it returns the first \<open>l\<close> records of that list. For Down it returns the empty
  plan, whatever the known list and the limit.
\<close>

theorem plan_migrations_nothing_applied:
  "(\<exists>plan. plan_migrations known [] dir lim = Inr plan)
   \<and> plan_migrations known [] UP None = Inr (sort_key name known)
   \<and> sorted (map name (sort_key name known))
   \<and> mset (sort_key name known) = mset known
   \<and> (0 \<le> l \<longrightarrow>
        plan_migrations known [] UP (Some l) = Inr (take (nat l) (sort_key name known)))
   \<and> plan_migrations known [] DOWN lim = Inr []"
  by (simp add: plan_migrations_def slice_to_def)

theorem plan_migrations_nothing_applied_witness:
  "plan_migrations
     [new_Migration ''0002'' UNAPPLIED, new_Migration ''0001'' UNAPPLIED,
      new_Migration ''0003'' UNAPPLIED] [] UP (Some 2) =
   Inr [new_Migration ''0001'' UNAPPLIED, new_Migration ''0002'' UNAPPLIED]"
  using plan_migrations_nothing_applied
    [of "[new_Migration ''0002'' UNAPPLIED, new_Migration ''0001'' UNAPPLIED,
          new_Migration ''0003'' UNAPPLIED]" UP None 2]
  by (simp add: new_Migration_def)

lemma plan_error_limit_free:
  "plan_migrations known applied dir lim = Inl e \<Longrightarrow> plan_migrations known applied dir lim' = Inl e"
  by (auto simp: plan_migrations_def Let_def split: if_splits sum.splits)

lemma plan_limit_take:
  assumes "plan_migrations known applied dir None = Inr full" and "0 \<le> l"
  shows "plan_migrations known applied dir (Some l) = Inr (take (nat l) full)"
  using assms
  by (auto simp: plan_migrations_def Let_def slice_to_def split: if_splits sum.splits)

lemma plan_full_names:
  assumes "plan_migrations known applied dir None = Inr full"
  shows "name ` set full = (if dir = UP then name ` set known - name ` set applied else name ` set applied)"
proof (cases "applied = []")
  case True
  with assms show ?thesis by (auto simp: plan_migrations_def slice_to_def split: if_splits)
next
  case False
  let ?km = "known_mapping_of known"
  from assms False have sub: "name ` set applied \<subseteq> name ` set known"
    by (auto simp: plan_migrations_def Let_def keys_known_mapping_of split: if_splits)
  show ?thesis
  proof (cases dir)
    case UP
    let ?ns = "sorted_list_of_set (name ` set known - name ` set applied)"
    have ns: "set ?ns \<subseteq> name ` set known" by auto
    then have "set ?ns \<subseteq> fst ` set ?km" by (simp add: keys_known_mapping_of)
    from lookup_each_known[OF this] assms False UP sub
    have "full = sort_key name (map (the \<circ> map_of ?km) ?ns)"
      by (auto simp: plan_migrations_def Let_def keys_known_mapping_of split: if_splits)
    then have "set full = set (map (the \<circ> map_of ?km) ?ns)"
      by (simp only: set_sort)
    then have "name ` set full = set (map name (map (the \<circ> map_of ?km) ?ns))"
      by (simp only: set_map)
    also have "\<dots> = set ?ns" using names_lookup_known[OF ns] by simp
    finally show ?thesis using UP by simp
  next
    case DOWN
    let ?ns = "sorted_list_of_set (name ` set applied)"
    have ns: "set ?ns \<subseteq> name ` set known" using sub by auto
    then have "set ?ns \<subseteq> fst ` set ?km" by (simp add: keys_known_mapping_of)
    from lookup_each_known[OF this] assms False DOWN sub
    have "full = sorted_reverse name (map (the \<circ> map_of ?km) ?ns)"
      by (auto simp: plan_migrations_def Let_def keys_known_mapping_of split: if_splits)
    then have "set full = set (map (the \<circ> map_of ?km) ?ns)"
      by (simp only: set_sorted_reverse)
    then have "name ` set full = set (map name (map (the \<circ> map_of ?km) ?ns))"
      by (simp only: set_map)
    also have "\<dots> = set ?ns" using names_lookup_known[OF ns] by simp
    finally show ?thesis using DOWN by simp
  qed
qed

text \<open>
  C5. Whenever \<open>plan_migrations\<close> returns a plan \<open>full\<close> for \<open>limit=None\<close>, that plan is
  untruncated: its names are all the known names that are not applied (Up), all the applied
  names (Down). For every limit \<open>l \<ge> 0\<close> the call with that limit returns the first \<open>l\<close>
  records of \<open>full\<close>, a plan of length \<open>min l (length full)\<close>. An exception raised with
  one limit is raised with every other limit.
\<close>

theorem plan_migrations_limit:
  "(plan_migrations known applied dir None = Inr full \<longrightarrow>
      name ` set full =
        (if dir = UP then name ` set known - name ` set applied else name ` set applied)
      \<and> (0 \<le> l \<longrightarrow>
           (\<exists>plan. plan_migrations known applied dir (Some l) = Inr plan
              \<and> plan = take (nat l) full
              \<and> int (length plan) = min l (int (length full)))))
   \<and> (plan_migrations known applied dir lim = Inl e \<longleftrightarrow>
        plan_migrations known applied dir lim' = Inl e)"
proof -
  have "int (length (take (nat l) full)) = min l (int (length full))" if "0 \<le> l"
    using that by auto
  then show ?thesis
    using plan_limit_take[of known applied dir full l] plan_full_names[of known applied dir full]
      plan_error_limit_free[of known applied dir lim e lim']
      plan_error_limit_free[of known applied dir lim' e lim]
    by blast
qed

theorem plan_migrations_limit_witness:
  "plan_migrations
     [new_Migration ''0003'' UNAPPLIED, new_Migration ''0001'' UNAPPLIED,
      new_Migration ''0002'' UNAPPLIED]
     [new_Migration ''0001'' APPLIED] UP None =
     Inr [new_Migration ''0002'' UNAPPLIED, new_Migration ''0003'' UNAPPLIED]
   \<and> plan_migrations
     [new_Migration ''0003'' UNAPPLIED, new_Migration ''0001'' UNAPPLIED,
      new_Migration ''0002'' UNAPPLIED]
     [new_Migration ''0001'' APPLIED] UP (Some 1) =
     Inr [new_Migration ''0002'' UNAPPLIED]"
proof -
  have full:
    "plan_migrations
       [new_Migration ''0003'' UNAPPLIED, new_Migration ''0001'' UNAPPLIED,
        new_Migration ''0002'' UNAPPLIED]
       [new_Migration ''0001'' APPLIED] UP None =
     Inr [new_Migration ''0002'' UNAPPLIED, new_Migration ''0003'' UNAPPLIED]"
    by code_simp
  show ?thesis
    using full plan_migrations_limit
      [of "[new_Migration ''0003'' UNAPPLIED, new_Migration ''0001'' UNAPPLIED,
            new_Migration ''0002'' UNAPPLIED]"
          "[new_Migration ''0001'' APPLIED]" UP
          "[new_Migration ''0002'' UNAPPLIED, new_Migration ''0003'' UNAPPLIED]" 1]
    by simp
qed


lemma map_of_fold_update_other:
  "k \<notin> name ` set ms \<Longrightarrow>
   map_of (fold (\<lambda>m d. AList.update (name m) m d) ms d0) k = map_of d0 k"
  by (induction ms arbitrary: d0) (auto simp: update_conv')

lemma map_of_fold_update_distinct:
  "distinct (map name ms) \<Longrightarrow> m \<in> set ms \<Longrightarrow>
   map_of (fold (\<lambda>m d. AList.update (name m) m d) ms d0) (name m) = Some m"
proof (induction ms arbitrary: d0)
  case Nil
  then show ?case by simp
next
  case (Cons a ms)
  show ?case
  proof (cases "m = a")
    case True
    with Cons.prems have "name m \<notin> name ` set ms" by auto
    from map_of_fold_update_other[OF this] True show ?thesis
      by (simp add: update_conv')
  next
    case False
    with Cons show ?thesis by auto
  qed
qed

lemma known_mapping_of_distinct:
  "distinct (map name known) \<Longrightarrow> m \<in> set known \<Longrightarrow>
   map_of (known_mapping_of known) (name m) = Some m"
  by (simp add: known_mapping_of_def map_of_fold_update_distinct)

lemma sort_key_distinct_unique:
  assumes "distinct (map f xs)" and "set ys = set xs" and "sorted (map f ys)" and "distinct ys"
  shows "sort_key f xs = ys"
proof -
  have inj: "inj_on f (set xs)" using assms(1) by (simp add: distinct_map)
  have dx: "distinct (map f (sort_key f xs))"
    using assms(1) by (simp add: distinct_map)
  have dy: "distinct (map f ys)"
    using assms inj by (simp add: distinct_map)
  have "map f (sort_key f xs) = map f ys"
    using dx dy assms(2,3)
    by (intro sorted_distinct_set_unique) auto
  moreover have "inj_on f (set (sort_key f xs) \<union> set ys)"
    using inj assms(2) by simp
  ultimately show ?thesis by (simp add: inj_on_map_eq_map)
qed

lemma names_sorted_list_of_set:
  assumes "distinct (map name known)"
  shows "sorted_list_of_set (name ` set known) = map name (sort_key name known)"
proof -
  have "distinct (map name (sort_key name known))"
    using assms by (simp add: distinct_map)
  moreover have "set (map name (sort_key name known)) = name ` set known" by simp
  moreover have "sorted (map name (sort_key name known))" by simp
  ultimately show ?thesis
    by (metis sorted_list_of_set.idem_if_sorted_distinct)
qed

text \<open>
  C6. For every known list with pairwise distinct names, the unlimited Up plan over an empty
  applied list exists, and planning Down with that plan as the applied list succeeds and
  returns the Up plan reversed: the same records, names descending. (The names need not be
  non-empty.)
\<close>

theorem plan_migrations_up_then_down:
  assumes "distinct (map name known)"
  shows "\<exists>up down.
           plan_migrations known [] UP None = Inr up
         \<and> plan_migrations known up DOWN None = Inr down
         \<and> down = rev up
         \<and> set down = set up
         \<and> sorted (rev (map name down))"
proof -
  let ?up = "sort_key name known"
  let ?km = "known_mapping_of known"
  have up: "plan_migrations known [] UP None = Inr ?up"
    by (simp add: plan_migrations_def slice_to_def)
  have down: "plan_migrations known ?up DOWN None = Inr (rev ?up)"
  proof (cases "known = []")
    case True
    then show ?thesis by (simp add: plan_migrations_def)
  next
    case False
    then have ne: "?up \<noteq> []" by (metis length_sort length_0_conv)
    have names: "sorted_list_of_set (name ` set known) = map name ?up"
      by (rule names_sorted_list_of_set[OF assms])
    have "map (the \<circ> map_of ?km) (map name ?up) = ?up"
    proof -
      have "(the \<circ> map_of ?km \<circ> name) m = m" if "m \<in> set ?up" for m
        using known_mapping_of_distinct[OF assms, of m] that by simp
      then show ?thesis by (simp only: map_map map_idI)
    qed
    moreover have "set (map name ?up) \<subseteq> fst ` set ?km"
      by (simp add: keys_known_mapping_of)
    ultimately have look: "lookup_each ?km (map name ?up) = Inr ?up"
      using lookup_each_known[of "map name ?up" ?km] by simp
    have d: "distinct (map name (rev ?up))"
      using assms by (simp add: distinct_map)
    have "sort_key name (rev ?up) = ?up"
      using assms by (intro sort_key_distinct_unique[OF d]) (auto simp: distinct_map)
    then have rv: "sorted_reverse name ?up = rev ?up"
      by (simp add: sorted_reverse_def)
    show ?thesis
      using ne by (simp add: plan_migrations_def Let_def keys_known_mapping_of names look rv)
  qed
  have "sorted (rev (map name (rev ?up)))" by (simp add: rev_map)
  with up down show ?thesis by simp
qed

theorem plan_migrations_up_then_down_witness:
  "plan_migrations
     [new_Migration ''0002'' UNAPPLIED, new_Migration ''0001'' UNAPPLIED]
     [new_Migration ''0001'' UNAPPLIED, new_Migration ''0002'' UNAPPLIED] DOWN None =
   Inr [new_Migration ''0002'' UNAPPLIED, new_Migration ''0001'' UNAPPLIED]"
proof -
  have d: "distinct (map name
             [new_Migration ''0002'' UNAPPLIED, new_Migration ''0001'' UNAPPLIED])"
    by (simp add: new_Migration_def)
  have up:
    "plan_migrations
       [new_Migration ''0002'' UNAPPLIED, new_Migration ''0001'' UNAPPLIED] [] UP None =
     Inr [new_Migration ''0001'' UNAPPLIED, new_Migration ''0002'' UNAPPLIED]"
    by (simp add: plan_migrations_def slice_to_def new_Migration_def)
  from plan_migrations_up_then_down[OF d] up show ?thesis
    by auto
qed

section \<open>Facts about the parser\<close>

text \<open>
  C7. The file of the four lines \<open>-- +migrate Up\<close>, \<open>CREATE TABLE t(x int);\<close>,
  \<open>-- +migrate Down\<close>, \<open>DROP TABLE t;\<close> parses; the record has the one Up statement
  \<open>CREATE TABLE t(x int);\<close> and the one Down statement \<open>DROP TABLE t;\<close>, each with its
  trailing newline, and the other fields of a fresh unapplied record.
\<close>

theorem parse_migration_up_down_scenario:
  "parse_migration ''0001_a''
     (readlines
        ''-- +migrate Up\<newline>CREATE TABLE t(x int);\<newline>-- +migrate Down\<newline>DROP TABLE t;\<newline>'') =
   Inr ((new_Migration ''0001_a'' UNAPPLIED)
          \<lparr>up_statements := [''CREATE TABLE t(x int);\<newline>''],
           down_statements := [''DROP TABLE t;\<newline>'']\<rparr>)"
  by code_simp

subsection \<open>Lines and prefixes\<close>

lemma rstrip_chars_decomp:
  "\<exists>t. s = rstrip_chars cs s @ t \<and> set t \<subseteq> set cs"
proof -
  let ?P = "\<lambda>c. c \<in> set cs"
  have "s = rev (takeWhile ?P (rev s) @ dropWhile ?P (rev s))"
    by (simp only: takeWhile_dropWhile_id rev_rev_ident)
  then have "s = rstrip_chars cs s @ rev (takeWhile ?P (rev s))"
    by (simp only: rev_append rstrip_chars_def)
  moreover have "set (rev (takeWhile ?P (rev s))) \<subseteq> set cs"
    by (auto dest: set_takeWhileD)
  ultimately show ?thesis by blast
qed

lemma prefix_rstrip_chars:
  assumes "set p \<inter> set cs = {}"
  shows "prefix p (rstrip_chars cs s) = prefix p s"
proof -
  obtain t where t: "s = rstrip_chars cs s @ t" "set t \<subseteq> set cs"
    using rstrip_chars_decomp by blast
  show ?thesis
  proof
    assume "prefix p (rstrip_chars cs s)"
    then have "prefix p (rstrip_chars cs s @ t)" by (rule prefix_prefix)
    with t(1) show "prefix p s" by simp
  next
    assume "prefix p s"
    with t(1) have "prefix p (rstrip_chars cs s @ t)" by simp
    then consider "prefix p (rstrip_chars cs s)"
      | us where "p = rstrip_chars cs s @ us" "prefix us t"
      by (auto simp: prefix_append)
    then show "prefix p (rstrip_chars cs s)"
    proof cases
      case 1
      then show ?thesis .
    next
      case 2
      have "us = []"
      proof (rule ccontr)
        assume "us \<noteq> []"
        then obtain u us' where "us = u # us'" by (cases us) auto
        with 2 have "u \<in> set p" "u \<in> set t" by (auto simp: prefix_def)
        with t(2) assms show False by auto
      qed
      with 2 show ?thesis by simp
    qed
  qed
qed

lemma prefix_comment_rstrip [simp]:
  "prefix ''-- '' (rstrip_chars [CHR 0x0D, CHR 0x0A] s) = prefix ''-- '' s"
  by (rule prefix_rstrip_chars) simp

lemma prefix_plus_rstrip [simp]:
  "prefix ''-- +'' (rstrip_chars [CHR 0x0D, CHR 0x0A] s) = prefix ''-- +'' s"
  by (rule prefix_rstrip_chars) simp

lemma prefix_cmd_rstrip [simp]:
  "prefix SQL_CMD_PREFIX (rstrip_chars [CHR 0x0D, CHR 0x0A] s) = prefix SQL_CMD_PREFIX s"
  by (rule prefix_rstrip_chars) (simp add: SQL_CMD_PREFIX_def)

lemma prefix_cmd_imp_plus: "prefix SQL_CMD_PREFIX s \<Longrightarrow> prefix ''-- +'' s"
  by (auto simp: SQL_CMD_PREFIX_def prefix_def)

lemma prefix_plus_imp_comment: "prefix ''-- +'' s \<Longrightarrow> prefix ''-- '' s"
  by (auto simp: prefix_def)

lemma ends_with_semicolon_comment:
  "prefix ''--'' s \<Longrightarrow> \<not> ends_with_semicolon s"
  by (cases s) (auto simp: ends_with_semicolon_def rstrip_def)

lemma prefix_plus_imp_dashes: "prefix ''-- +'' s \<Longrightarrow> prefix ''--'' s"
  by (auto simp: prefix_def)

lemma parse_line_statement_ended:
  "\<not> statement_ended ps \<Longrightarrow> parse_line ps l = Inr ps' \<Longrightarrow> \<not> statement_ended ps'"
  by (auto simp: parse_line_def Let_def interpret_command_def wrap_up_def
      split: if_splits sum.splits)

lemma parse_lines_statement_ended:
  "\<not> statement_ended ps \<Longrightarrow> parse_lines ps ls = Inr ps' \<Longrightarrow> \<not> statement_ended ps'"
proof (induction ls arbitrary: ps)
  case Nil
  then show ?case by simp
next
  case (Cons l ls)
  then show ?case
    by (auto split: sum.splits dest: parse_line_statement_ended)
qed

lemma parse_lines_append:
  "parse_lines ps (xs @ ys) =
     (case parse_lines ps xs of Inl e \<Rightarrow> Inl e | Inr ps' \<Rightarrow> parse_lines ps' ys)"
  by (induction xs arbitrary: ps) (auto split: sum.splits)

lemma parse_line_plus_not_cmd:
  assumes "prefix ''-- +'' l" and "\<not> prefix SQL_CMD_PREFIX l" and "\<not> statement_ended ps"
  shows "parse_line ps l = Inr ps"
proof -
  let ?line = "rstrip_chars [CHR 0x0D, CHR 0x0A] l"
  have "prefix ''-- +'' ?line" using assms(1) by simp
  then have "\<not> ends_with_semicolon ?line"
    by (intro ends_with_semicolon_comment prefix_plus_imp_dashes)
  with assms show ?thesis
    by (simp add: parse_line_def Let_def)
qed

lemma parse_line_invalid_command:
  assumes "parse_line ps l = Inl (InvalidCommand c)"
  shows "prefix SQL_CMD_PREFIX l"
proof (rule ccontr)
  assume "\<not> prefix SQL_CMD_PREFIX l"
  with assms show False
    by (auto simp: parse_line_def Let_def split: if_splits)
qed

text \<open>
  C10. A line that begins with \<open>-- +\<close> but not with the directive prefix
  \<open>-- +migrate \<close> is discarded: the file parses to the same result with or without
  the line; at the state the loop has reached before the line, processing it raises nothing
  and returns the state unchanged (so nothing is appended to the buffer or to the
  statements). The invalid-command error is raised only on a line that begins with the
  directive prefix.
\<close>

theorem plus_line_without_directive_prefix_discarded:
  assumes "prefix ''-- +'' l" and "\<not> prefix SQL_CMD_PREFIX l"
  shows "parse_migration n (pre @ l # post) = parse_migration n (pre @ post)
       \<and> (parse_lines (initial_parse_state n) pre = Inr ps \<longrightarrow> parse_line ps l = Inr ps)
       \<and> (parse_line ps' l' = Inl (InvalidCommand c) \<longrightarrow> prefix SQL_CMD_PREFIX l')"
proof -
  have step: "parse_line ps l = Inr ps"
    if "parse_lines (initial_parse_state n) pre = Inr ps" for ps
  proof -
    have "\<not> statement_ended (initial_parse_state n)"
      by (simp add: initial_parse_state_def)
    from parse_lines_statement_ended[OF this that] have "\<not> statement_ended ps" .
    with assms show ?thesis by (rule parse_line_plus_not_cmd)
  qed
  have "parse_lines (initial_parse_state n) (pre @ l # post) =
        parse_lines (initial_parse_state n) (pre @ post)"
    using step by (auto simp: parse_lines_append split: sum.splits)
  then have "parse_migration n (pre @ l # post) = parse_migration n (pre @ post)"
    by (simp add: parse_migration_def)
  with step parse_line_invalid_command show ?thesis by blast
qed

theorem plus_line_without_directive_prefix_discarded_witness:
  "parse_migration ''m''
     [''-- +migrate Up\<newline>'', ''-- +migrate\<newline>'', ''SELECT 1;\<newline>''] =
   parse_migration ''m'' [''-- +migrate Up\<newline>'', ''SELECT 1;\<newline>'']"
proof -
  have 1: "prefix ''-- +'' ''-- +migrate\<newline>''"
    by simp
  have 2: "\<not> prefix SQL_CMD_PREFIX ''-- +migrate\<newline>''"
    by (simp add: SQL_CMD_PREFIX_def)
  from plus_line_without_directive_prefix_discarded
         [OF 1 2, of "''m''" "[''-- +migrate Up\<newline>'']" "[''SELECT 1;\<newline>'']"]
  show ?thesis by simp
qed


subsection \<open>End of input\<close>

lemma buf_ok_append:
  assumes "buf_ok b" and "\<not> prefix ''-- +'' line"
  shows "buf_ok (b @ line @ [CHR 0x0A])"
proof -
  have "\<not> prefix ''-- +'' (b @ line @ [CHR 0x0A])"
  proof
    assume p: "prefix ''-- +'' (b @ line @ [CHR 0x0A])"
    show False
    proof (cases "b = []")
      case True
      with p have "prefix ''-- +'' (line @ [CHR 0x0A])" by simp
      then consider "prefix ''-- +'' line"
        | us where "''-- +'' = line @ us" "prefix us [CHR 0x0A]"
        by (auto simp: prefix_append)
      then show False
      proof cases
        case 1
        with assms(2) show False by simp
      next
        case 2
        then have "us = [] \<or> us = [CHR 0x0A]" by (cases us) auto
        with 2(1) assms(2) show False
          by (auto simp: append_eq_Cons_conv Cons_eq_append_conv)
      qed
    next
      case False
      with assms(1) have nl: "CHR 0x0A \<in> set b" and np: "\<not> prefix ''-- +'' b"
        by (auto simp: buf_ok_def)
      from p consider "prefix ''-- +'' b"
        | us where "''-- +'' = b @ us"
        by (auto simp: prefix_append)
      then show False
      proof cases
        case 1
        with np show False by simp
      next
        case 2
        then have "set b \<subseteq> set ''-- +''" by (metis set_append Un_upper1)
        with nl show False by auto
      qed
    qed
  qed
  then show ?thesis by (simp add: buf_ok_def)
qed

lemma buf_ok_Nil [simp]: "buf_ok []"
  by (simp add: buf_ok_def)

lemma interpret_command_buf_ok:
  "buf_ok (buf ps) \<Longrightarrow> interpret_command ps cmd = Inr ps' \<Longrightarrow> buf_ok (buf ps')"
  by (auto simp: interpret_command_def Let_def split: if_splits)

lemma parse_line_buf_ok:
  assumes "buf_ok (buf ps)" and "parse_line ps l = Inr ps'"
  shows "buf_ok (buf ps')"
proof -
  let ?line = "rstrip_chars [CHR 0x0D, CHR 0x0A] l"
  show ?thesis
  proof (cases "prefix ''-- '' ?line \<and> \<not> prefix ''-- +'' ?line")
    case True
    with assms show ?thesis by (simp add: parse_line_def Let_def)
  next
    case False
    obtain ps1 where ps1: "buf_ok (buf ps1)"
      and rest: "(if current_direction ps1 = None then Inr ps1
            else
              let ps2 = (if \<not> prefix ''-- +'' ?line
                         then ps1\<lparr>buf := buf ps1 @ ?line @ [CHR 0x0A]\<rparr>
                         else ps1)
              in
              if (\<not> ignore_semicolons ps2 \<and> ends_with_semicolon ?line) \<or> statement_ended ps2
              then Inr (wrap_up ps2)
              else Inr ps2) = Inr ps'"
      using assms False
      by (auto simp: parse_line_def Let_def split: if_splits sum.splits
          dest: interpret_command_buf_ok)
    from rest ps1 show ?thesis
      using buf_ok_append[of "buf ps1" ?line]
      by (auto simp: Let_def wrap_up_def split: if_splits)
  qed
qed

lemma parse_lines_buf_ok:
  "buf_ok (buf ps) \<Longrightarrow> parse_lines ps ls = Inr ps' \<Longrightarrow> buf_ok (buf ps')"
proof (induction ls arbitrary: ps)
  case Nil
  then show ?case by simp
next
  case (Cons l ls)
  then show ?case
    by (auto split: sum.splits dest: parse_line_buf_ok)
qed

lemma parse_line_no_ignore:
  assumes "current_direction ps = None \<longrightarrow> \<not> ignore_semicolons ps"
    and "parse_line ps l = Inr ps'"
  shows "current_direction ps' = None \<longrightarrow> \<not> ignore_semicolons ps'"
  using assms
  by (auto simp: parse_line_def Let_def interpret_command_def wrap_up_def
      split: if_splits sum.splits)

lemma parse_lines_no_ignore:
  "current_direction ps = None \<longrightarrow> \<not> ignore_semicolons ps \<Longrightarrow>
   parse_lines ps ls = Inr ps' \<Longrightarrow>
   current_direction ps' = None \<longrightarrow> \<not> ignore_semicolons ps'"
proof (induction ls arbitrary: ps)
  case Nil
  then show ?case by simp
next
  case (Cons l ls)
  from Cons.prems(2) obtain ps1 where l: "parse_line ps l = Inr ps1"
    and ls: "parse_lines ps1 ls = Inr ps'"
    by (auto split: sum.splits)
  from Cons.IH[OF parse_line_no_ignore[OF Cons.prems(1) l] ls] show ?case .
qed

lemma parse_line_no_direction:
  assumes "current_direction ps = None" and "\<not> prefix SQL_CMD_PREFIX l"
  shows "parse_line ps l = Inr ps"
  using assms by (simp add: parse_line_def Let_def)

lemma parse_lines_no_directive:
  assumes "current_direction ps = None" and "\<forall>l \<in> set ls. \<not> prefix SQL_CMD_PREFIX l"
  shows "parse_lines ps ls = Inr ps"
  using assms by (induction ls) (simp_all add: parse_line_no_direction)

text \<open>
  C9. After the last line is consumed, with \<open>ps\<close> the state the loop ends in:
  if ignore-semicolons mode is still on, \<open>parse_migration\<close> fails with the unmatched
  \<open>StatementBegin\<close> error; if no direction was set, it fails with the no-annotations error;
  otherwise, if the buffer still holds anything but whitespace, it fails with the
  no-terminator error (the buffer never begins with \<open>-- +\<close>, so the exemption of the last
  check never applies). The empty file, and every file none of whose lines begins with the
  directive prefix, fail with the no-annotations error.
\<close>

theorem end_of_input_diagnosis:
  "(parse_lines (initial_parse_state n) content = Inr ps \<longrightarrow>
      (ignore_semicolons ps \<longrightarrow> parse_migration n content = Inl UnmatchedStatementBegin)
    \<and> (current_direction ps = None \<longrightarrow> parse_migration n content = Inl NoAnnotations)
    \<and> (\<not> ignore_semicolons ps \<and> current_direction ps \<noteq> None \<and> strip (buf ps) \<noteq> [] \<longrightarrow>
         parse_migration n content = Inl NoTerminator))
   \<and> parse_migration n [] = Inl NoAnnotations
   \<and> ((\<forall>l \<in> set content. \<not> prefix SQL_CMD_PREFIX l) \<longrightarrow>
        parse_migration n content = Inl NoAnnotations)"
proof -
  let ?init = "initial_parse_state n"
  have init: "current_direction ?init = None" "\<not> ignore_semicolons ?init" "buf_ok (buf ?init)"
    by (simp_all add: initial_parse_state_def)
  have a: "parse_migration n content = Inl UnmatchedStatementBegin"
    if "parse_lines ?init content = Inr ps" "ignore_semicolons ps"
    using that by (simp add: parse_migration_def diagnose_def)
  have b: "parse_migration n content = Inl NoAnnotations"
    if "parse_lines ?init content = Inr ps" "current_direction ps = None"
  proof -
    from parse_lines_no_ignore[OF _ that(1)] init that(2) have "\<not> ignore_semicolons ps"
      by simp
    with that show ?thesis by (simp add: parse_migration_def diagnose_def)
  qed
  have c: "parse_migration n content = Inl NoTerminator"
    if "parse_lines ?init content = Inr ps" "\<not> ignore_semicolons ps"
      "current_direction ps \<noteq> None" "strip (buf ps) \<noteq> []"
  proof -
    from parse_lines_buf_ok[OF init(3) that(1)] have "buf_ok (buf ps)" .
    moreover from that(4) have "buf ps \<noteq> []" by (auto simp: strip_def rstrip_def)
    ultimately have "\<not> prefix ''-- +'' (buf ps)" by (simp add: buf_ok_def)
    with that show ?thesis by (simp add: parse_migration_def diagnose_def)
  qed
  have d: "parse_migration n [] = Inl NoAnnotations"
    by (simp add: parse_migration_def diagnose_def initial_parse_state_def)
  have e: "parse_migration n content = Inl NoAnnotations"
    if "\<forall>l \<in> set content. \<not> prefix SQL_CMD_PREFIX l"
    using parse_lines_no_directive[OF init(1) that] init
    by (simp add: parse_migration_def diagnose_def)
  from a b c d e show ?thesis by blast
qed

theorem end_of_input_diagnosis_witness:
  "parse_migration ''m''
     [''-- +migrate Up\<newline>'', ''-- +migrate StatementBegin\<newline>'', ''x;\<newline>''] =
     Inl UnmatchedStatementBegin
   \<and> parse_migration ''m'' [''-- +migrate Up\<newline>'', ''SELECT 1\<newline>''] = Inl NoTerminator
   \<and> parse_migration ''m'' [''SELECT 1;\<newline>'', ''-- plain comment\<newline>''] = Inl NoAnnotations"
proof -
  have 1: "parse_lines (initial_parse_state ''m'')
             [''-- +migrate Up\<newline>'', ''-- +migrate StatementBegin\<newline>'', ''x;\<newline>''] =
           Inr ((initial_parse_state ''m'')
                  \<lparr>buf := ''x;\<newline>'', ignore_semicolons := True,
                   current_direction := Some UP\<rparr>)"
    by code_simp
  have 2: "parse_lines (initial_parse_state ''m'')
             [''-- +migrate Up\<newline>'', ''SELECT 1\<newline>''] =
           Inr ((initial_parse_state ''m'')
                  \<lparr>buf := ''SELECT 1\<newline>'', current_direction := Some UP\<rparr>)"
    by code_simp
  have 3: "strip ''SELECT 1\<newline>'' \<noteq> []"
    by code_simp
  have 4: "\<forall>l \<in> set [''SELECT 1;\<newline>'', ''-- plain comment\<newline>'']. \<not> prefix SQL_CMD_PREFIX l"
    by (simp add: SQL_CMD_PREFIX_def)
  from end_of_input_diagnosis
         [of "''m''"
             "[''-- +migrate Up\<newline>'', ''-- +migrate StatementBegin\<newline>'', ''x;\<newline>'']"
             "(initial_parse_state ''m'')
                \<lparr>buf := ''x;\<newline>'', ignore_semicolons := True,
                 current_direction := Some UP\<rparr>"] 1
  have a: "parse_migration ''m''
     [''-- +migrate Up\<newline>'', ''-- +migrate StatementBegin\<newline>'', ''x;\<newline>''] =
     Inl UnmatchedStatementBegin"
    by simp
  from end_of_input_diagnosis
         [of "''m''" "[''-- +migrate Up\<newline>'', ''SELECT 1\<newline>'']"
             "(initial_parse_state ''m'')
                \<lparr>buf := ''SELECT 1\<newline>'', current_direction := Some UP\<rparr>"] 2 3
  have b: "parse_migration ''m'' [''-- +migrate Up\<newline>'', ''SELECT 1\<newline>''] = Inl NoTerminator"
    by (simp add: initial_parse_state_def)
  from end_of_input_diagnosis
         [of "''m''" "[''SELECT 1;\<newline>'', ''-- plain comment\<newline>'']"] 4
  have c: "parse_migration ''m'' [''SELECT 1;\<newline>'', ''-- plain comment\<newline>''] = Inl NoAnnotations"
    by blast
  from a b c show ?thesis by simp
qed


subsection \<open>Statement blocks\<close>

lemma wrap_up_eq:
  "current_direction ps = Some d \<Longrightarrow>
   wrap_up ps = ps\<lparr>statement_ended := False,
                   parsed_migration := add_statement d (buf ps) (parsed_migration ps),
                   buf := []\<rparr>"
  by (cases d) (simp_all add: wrap_up_def add_statement_def)

lemma directive_prefix_plus: "directive c l \<Longrightarrow> prefix ''-- +'' l"
  by (simp add: directive_def prefix_cmd_imp_plus)

lemma parse_line_statement_begin:
  assumes "current_direction ps = Some d" and "\<not> statement_ended ps"
    and "directive ''StatementBegin'' b"
  shows "parse_line ps b = Inr (ps\<lparr>ignore_semicolons := True\<rparr>)"
proof -
  let ?line = "rstrip_chars [CHR 0x0D, CHR 0x0A] b"
  from assms(3) obtain cmd where cmd: "parse_command ?line = Inr cmd"
    "command cmd = ''StatementBegin''" and p: "prefix SQL_CMD_PREFIX b"
    by (auto simp: directive_def split: sum.splits)
  have plus: "prefix ''-- +'' b" using assms(3) by (rule directive_prefix_plus)
  from cmd assms(1) have "interpret_command ps cmd = Inr (ps\<lparr>ignore_semicolons := True\<rparr>)"
    by (simp add: interpret_command_def)
  with cmd p plus assms(1,2) show ?thesis
    by (simp add: parse_line_def Let_def)
qed

lemma parse_line_statement_end_on:
  assumes "current_direction ps = Some d" and "ignore_semicolons ps"
    and "directive ''StatementEnd'' e"
  shows "parse_line ps e =
           Inr (ps\<lparr>statement_ended := False, ignore_semicolons := False, buf := [],
                   parsed_migration := add_statement d (buf ps) (parsed_migration ps)\<rparr>)"
proof -
  let ?line = "rstrip_chars [CHR 0x0D, CHR 0x0A] e"
  from assms(3) obtain cmd where cmd: "parse_command ?line = Inr cmd"
    "command cmd = ''StatementEnd''" and p: "prefix SQL_CMD_PREFIX e"
    by (auto simp: directive_def split: sum.splits)
  have plus: "prefix ''-- +'' e" using assms(3) by (rule directive_prefix_plus)
  from cmd assms(1,2) have "interpret_command ps cmd =
      Inr (ps\<lparr>statement_ended := True, ignore_semicolons := False\<rparr>)"
    by (simp add: interpret_command_def)
  with cmd p plus assms(1) show ?thesis
    by (simp add: parse_line_def Let_def wrap_up_eq[of _ d])
qed

lemma parse_line_statement_end_off:
  assumes "current_direction ps = Some d" and "\<not> ignore_semicolons ps"
    and "\<not> statement_ended ps" and "directive ''StatementEnd'' e"
  shows "parse_line ps e = Inr ps"
proof -
  let ?line = "rstrip_chars [CHR 0x0D, CHR 0x0A] e"
  from assms(4) obtain cmd where cmd: "parse_command ?line = Inr cmd"
    "command cmd = ''StatementEnd''" and p: "prefix SQL_CMD_PREFIX e"
    by (auto simp: directive_def split: sum.splits)
  have plus: "prefix ''-- +'' e" using assms(4) by (rule directive_prefix_plus)
  then have "prefix ''-- +'' ?line" by simp
  then have semi: "\<not> ends_with_semicolon ?line"
    by (intro ends_with_semicolon_comment prefix_plus_imp_dashes)
  from cmd assms(1,2,3) have "interpret_command ps cmd = Inr ps"
    by (simp add: interpret_command_def)
  with cmd p plus semi assms(1,2,3) show ?thesis
    by (simp add: parse_line_def Let_def)
qed

lemma parse_line_in_block:
  assumes "current_direction ps = Some d" and "ignore_semicolons ps"
    and "\<not> statement_ended ps" and "\<not> prefix ''-- '' l"
  shows "parse_line ps l =
           Inr (ps\<lparr>buf := buf ps @ rstrip_chars [CHR 0x0D, CHR 0x0A] l @ [CHR 0x0A]\<rparr>)"
proof -
  from assms(4) have "\<not> prefix ''-- +'' l" "\<not> prefix SQL_CMD_PREFIX l"
    using prefix_plus_imp_comment prefix_cmd_imp_plus by blast+
  with assms show ?thesis
    by (simp add: parse_line_def Let_def)
qed

lemma parse_lines_in_block:
  assumes "current_direction ps = Some d" and "ignore_semicolons ps"
    and "\<not> statement_ended ps" and "\<forall>l \<in> set body. \<not> prefix ''-- '' l"
  shows "parse_lines ps body =
           Inr (ps\<lparr>buf := buf ps @
                  concat (map (\<lambda>l. rstrip_chars [CHR 0x0D, CHR 0x0A] l @ [CHR 0x0A]) body)\<rparr>)"
  using assms
proof (induction body arbitrary: ps)
  case Nil
  then show ?case by simp
next
  case (Cons l body)
  let ?ps1 = "ps\<lparr>buf := buf ps @ rstrip_chars [CHR 0x0D, CHR 0x0A] l @ [CHR 0x0A]\<rparr>"
  have l: "parse_line ps l = Inr ?ps1"
    using Cons.prems by (intro parse_line_in_block) auto
  have "parse_lines ?ps1 body =
          Inr (?ps1\<lparr>buf := buf ?ps1 @
                 concat (map (\<lambda>l. rstrip_chars [CHR 0x0D, CHR 0x0A] l @ [CHR 0x0A]) body)\<rparr>)"
    using Cons.prems by (intro Cons.IH) auto
  with l show ?case by simp
qed

text \<open>
  C8 does not hold as stated: \<open>StatementEnd\<close> sets \<open>statement_ended\<close> to the value of
  \<open>ignore_semicolons\<close>, so a \<open>StatementEnd\<close> line met while the mode is off (no open
  \<open>StatementBegin\<close>) terminates nothing. In the file below the statement \<open>SELECT 1\<close>
  is still in the buffer after the \<open>StatementEnd\<close> line, no statement has been recorded, and
  the parse fails for want of a terminator.
\<close>

theorem statement_end_without_begin_counterexample:
  "parse_lines (initial_parse_state ''m'')
     [''-- +migrate Up\<newline>'', ''SELECT 1\<newline>'', ''-- +migrate StatementEnd\<newline>''] =
     Inr ((initial_parse_state ''m'')
            \<lparr>buf := ''SELECT 1\<newline>'', current_direction := Some UP\<rparr>)
   \<and> up_statements
       (parsed_migration
          ((initial_parse_state ''m'')
             \<lparr>buf := ''SELECT 1\<newline>'', current_direction := Some UP\<rparr>)) = []
   \<and> parse_migration ''m''
       [''-- +migrate Up\<newline>'', ''SELECT 1\<newline>'', ''-- +migrate StatementEnd\<newline>''] =
     Inl NoTerminator"
  by code_simp

text \<open>
  C8, amended. Let a direction be active at a line boundary. A \<open>StatementEnd\<close> directive
  line met while ignore-semicolons mode is on ends the mode and terminates the statement at
  that line: the whole buffer is appended, as one statement, to the statements of the
  active direction, and the buffer is emptied. Met while the mode is off, the line changes
  nothing. Hence a block of lines between a \<open>StatementBegin\<close> line and a \<open>StatementEnd\<close>
  line (none of the lines a comment or a directive; semicolons anywhere) is recorded as one
  statement, each line with a newline after it, whatever semicolons it contains.
\<close>

theorem statement_end_closes_open_block:
  assumes "current_direction ps = Some d" and "\<not> statement_ended ps"
    and "directive ''StatementBegin'' b" and "directive ''StatementEnd'' e"
  shows
    "(ignore_semicolons ps \<longrightarrow>
        parse_line ps e =
          Inr (ps\<lparr>statement_ended := False, ignore_semicolons := False, buf := [],
                  parsed_migration := add_statement d (buf ps) (parsed_migration ps)\<rparr>))
   \<and> (\<not> ignore_semicolons ps \<longrightarrow> parse_line ps e = Inr ps)
   \<and> (\<not> ignore_semicolons ps \<and> (\<forall>l \<in> set body. \<not> prefix ''-- '' l) \<longrightarrow>
        parse_lines ps (b # body @ [e]) =
          Inr (ps\<lparr>statement_ended := False, ignore_semicolons := False, buf := [],
                  parsed_migration :=
                    add_statement d
                      (buf ps @ concat (map (\<lambda>l. rstrip_chars [CHR 0x0D, CHR 0x0A] l @ [CHR 0x0A]) body))
                      (parsed_migration ps)\<rparr>))"
proof -
  have block: "parse_lines ps (b # body @ [e]) =
          Inr (ps\<lparr>statement_ended := False, ignore_semicolons := False, buf := [],
                  parsed_migration :=
                    add_statement d
                      (buf ps @ concat (map (\<lambda>l. rstrip_chars [CHR 0x0D, CHR 0x0A] l @ [CHR 0x0A]) body))
                      (parsed_migration ps)\<rparr>)"
    if "\<not> ignore_semicolons ps" "\<forall>l \<in> set body. \<not> prefix ''-- '' l"
  proof -
    let ?ps1 = "ps\<lparr>ignore_semicolons := True\<rparr>"
    let ?ps2 = "?ps1\<lparr>buf := buf ?ps1 @
                  concat (map (\<lambda>l. rstrip_chars [CHR 0x0D, CHR 0x0A] l @ [CHR 0x0A]) body)\<rparr>"
    have 1: "parse_line ps b = Inr ?ps1"
      using assms(1,2,3) by (rule parse_line_statement_begin)
    have 2: "parse_lines ?ps1 body = Inr ?ps2"
      using assms(1,2) that(2) by (intro parse_lines_in_block[of _ d]) auto
    have 3: "parse_line ?ps2 e =
           Inr (?ps2\<lparr>statement_ended := False, ignore_semicolons := False, buf := [],
                   parsed_migration := add_statement d (buf ?ps2) (parsed_migration ?ps2)\<rparr>)"
      using assms(1,4) by (intro parse_line_statement_end_on) auto
    from 1 2 3 show ?thesis
      by (simp add: parse_lines_append)
  qed
  from block parse_line_statement_end_on[OF assms(1) _ assms(4)]
    parse_line_statement_end_off[OF assms(1) _ assms(2,4)]
  show ?thesis by blast
qed

theorem statement_end_closes_open_block_witness:
  "parse_lines ((initial_parse_state ''m'')\<lparr>current_direction := Some UP\<rparr>)
     [''-- +migrate StatementBegin\<newline>'', ''a; b;\<newline>'', ''c;\<newline>'',
      ''-- +migrate StatementEnd\<newline>''] =
   Inr ((initial_parse_state ''m'')
          \<lparr>current_direction := Some UP,
           parsed_migration :=
             (new_Migration ''m'' UNAPPLIED)\<lparr>up_statements := [''a; b;\<newline>c;\<newline>'']\<rparr>\<rparr>)
   \<and> parse_line
       ((initial_parse_state ''m'')
          \<lparr>buf := ''a;\<newline>'', ignore_semicolons := True, current_direction := Some DOWN\<rparr>)
       ''-- +migrate StatementEnd'' =
     Inr ((initial_parse_state ''m'')
            \<lparr>current_direction := Some DOWN,
             parsed_migration :=
               (new_Migration ''m'' UNAPPLIED)\<lparr>down_statements := [''a;\<newline>'']\<rparr>\<rparr>)"
proof -
  have b: "directive ''StatementBegin'' ''-- +migrate StatementBegin\<newline>''"
    by code_simp
  have e: "directive ''StatementEnd'' ''-- +migrate StatementEnd\<newline>''"
    by code_simp
  have e': "directive ''StatementEnd'' ''-- +migrate StatementEnd''"
    by code_simp
  have body: "\<forall>l \<in> set [''a; b;\<newline>'', ''c;\<newline>'']. \<not> prefix ''-- '' l"
    by simp
  have strip: "rstrip_chars [CHR 0x0D, CHR 0x0A] ''a; b;\<newline>'' = ''a; b;''"
    "rstrip_chars [CHR 0x0D, CHR 0x0A] ''c;\<newline>'' = ''c;''"
    by (simp_all add: rstrip_chars_def)
  from statement_end_closes_open_block
         [of "(initial_parse_state ''m'')\<lparr>current_direction := Some UP\<rparr>" UP
             "''-- +migrate StatementBegin\<newline>''" "''-- +migrate StatementEnd\<newline>''"
             "[''a; b;\<newline>'', ''c;\<newline>'']", OF _ _ b e] body
  have 1: "parse_lines ((initial_parse_state ''m'')\<lparr>current_direction := Some UP\<rparr>)
     [''-- +migrate StatementBegin\<newline>'', ''a; b;\<newline>'', ''c;\<newline>'',
      ''-- +migrate StatementEnd\<newline>''] =
   Inr ((initial_parse_state ''m'')
          \<lparr>current_direction := Some UP,
           parsed_migration :=
             (new_Migration ''m'' UNAPPLIED)\<lparr>up_statements := [''a; b;\<newline>c;\<newline>'']\<rparr>\<rparr>)"
    by (simp add: initial_parse_state_def new_Migration_def add_statement_def strip)
  from statement_end_closes_open_block
         [of "(initial_parse_state ''m'')
                \<lparr>buf := ''a;\<newline>'', ignore_semicolons := True,
                 current_direction := Some DOWN\<rparr>" DOWN
             "''-- +migrate StatementBegin\<newline>''" "''-- +migrate StatementEnd''" "[]",
          OF _ _ b e']
  have 2: "parse_line
       ((initial_parse_state ''m'')
          \<lparr>buf := ''a;\<newline>'', ignore_semicolons := True, current_direction := Some DOWN\<rparr>)
       ''-- +migrate StatementEnd'' =
     Inr ((initial_parse_state ''m'')
            \<lparr>current_direction := Some DOWN,
             parsed_migration :=
               (new_Migration ''m'' UNAPPLIED)\<lparr>down_statements := [''a;\<newline>'']\<rparr>\<rparr>)"
    by (simp add: initial_parse_state_def new_Migration_def add_statement_def)
  from 1 2 show ?thesis by simp
qed

section \<open>Facts about running migrations\<close>


lemma bind_io_Inl: "m db = (Inl e, db') \<Longrightarrow> bind_io m f db = (Inl e, db')"
  by (simp add: bind_io_def)




lemma transaction_failure:
  "work db = (Inl e, db') \<Longrightarrow> transaction conn work db = (Inl e, db)"
  by (simp add: transaction_def)

lemma transaction_success:
  "work db = (Inr x, db') \<Longrightarrow> transaction conn work db = (Inr x, db')"
  by (simp add: transaction_def)









end
